theory Spec2Isabelle
  imports Main
begin

section \<open>Python values\<close>

text \<open>
  The payloads of \<^verbatim>\<open>bot.py\<close> are JSON-shaped Python values. A \<^verbatim>\<open>str\<close> is a list of
  characters, read as code points below 256. A \<^verbatim>\<open>dict\<close> with string keys is an
  association list in insertion order, read with \<open>map_of\<close>. A \<^verbatim>\<open>float\<close> is carried
  as the text of its \<^verbatim>\<open>repr\<close> (first character and rest, so never empty): the program
  only ever tests a float for truth and prints it.
\<close>

datatype pyval =
    PNone
  | PBool bool
  | PInt int
  | PFloat char string
  | PStr string
  | PList "pyval list"
  | PDict "(string \<times> pyval) list"

text \<open>Truth value of an operand of \<^verbatim>\<open>or\<close>.\<close>

fun truthy :: "pyval \<Rightarrow> bool" where
  "truthy PNone = False"
| "truthy (PBool b) = b"
| "truthy (PInt i) = (i \<noteq> 0)"
| "truthy (PFloat c cs) = (c # cs \<noteq> ''0.0'' \<and> c # cs \<noteq> ''-0.0'')"
| "truthy (PStr s) = (s \<noteq> [])"
| "truthy (PList xs) = (xs \<noteq> [])"
| "truthy (PDict d) = (d \<noteq> [])"

definition py_or :: "pyval \<Rightarrow> pyval \<Rightarrow> pyval" where
  "py_or a b = (if truthy a then a else b)"

subsection \<open>Characters and the two regular expressions\<close>

text \<open>\<^verbatim>\<open>str.isspace\<close> and the class \<^verbatim>\<open>\s\<close>, on code points below 256.\<close>

definition is_space :: "char \<Rightarrow> bool" where
  "is_space c =
     (let n = (of_char c :: nat)
      in (9 \<le> n \<and> n \<le> 13) \<or> (28 \<le> n \<and> n \<le> 32) \<or> n = 133 \<or> n = 160)"

text \<open>The class \<^verbatim>\<open>\d\<close>, on code points below 256: the ten ASCII digits.\<close>

definition is_digit :: "char \<Rightarrow> bool" where
  "is_digit c = (let n = (of_char c :: nat) in 48 \<le> n \<and> n \<le> 57)"

definition digit_value :: "char \<Rightarrow> int" where
  "digit_value c = int (of_char c) - 48"

text \<open>\<^verbatim>\<open>int(m.group())\<close> on a run of digits.\<close>

definition int_of_digits :: "string \<Rightarrow> int" where
  "int_of_digits ds = foldl (\<lambda>a c. 10 * a + digit_value c) 0 ds"

text \<open>\<^verbatim>\<open>str.strip()\<close>.\<close>

definition strip :: "string \<Rightarrow> string" where
  "strip s = rev (dropWhile is_space (rev (dropWhile is_space s)))"

text \<open>
  \<^verbatim>\<open>$\<close> without the MULTILINE flag: the end of the string, or just before a newline
  that ends the string.
\<close>

definition at_end :: "string \<Rightarrow> bool" where
  "at_end r = (r = [] \<or> r = [CHR 0x0A])"

text \<open>\<^verbatim>\<open>\s*$\<close>: the rest of the string is white space.\<close>

definition spaces_to_end :: "string \<Rightarrow> bool" where
  "spaces_to_end r = list_all is_space r"

text \<open>
  \<^verbatim>\<open>\d{1,2}\<close> followed by \<open>rest\<close>, matched at the start of the given text: the greedy
  two-digit attempt first, then one digit.
\<close>

fun match_digits :: "(string \<Rightarrow> bool) \<Rightarrow> string \<Rightarrow> string option" where
  "match_digits rest (a # b # r) =
     (if is_digit a \<and> is_digit b \<and> rest r then Some [a, b]
      else if is_digit a \<and> rest (b # r) then Some [a]
      else None)"
| "match_digits rest [a] = (if is_digit a \<and> rest [] then Some [a] else None)"
| "match_digits rest [] = None"

text \<open>\<^verbatim>\<open>re.search\<close>: the first start position, from the left, where the pattern matches.\<close>

fun re_search :: "(string \<Rightarrow> 'a option) \<Rightarrow> string \<Rightarrow> 'a option" where
  "re_search m [] = m []"
| "re_search m (c # cs) = (case m (c # cs) of Some r \<Rightarrow> Some r | None \<Rightarrow> re_search m cs)"

subsection \<open>The builtin str\<close>

function str_nat :: "nat \<Rightarrow> string" where
  "str_nat n = (if n < 10 then [char_of (48 + n)] else str_nat (n div 10) @ [char_of (48 + n mod 10)])"
  by pat_completeness auto
termination
  by (relation "measure id") auto

definition str_int :: "int \<Rightarrow> string" where
  "str_int i = (if i < 0 then CHR ''-'' # str_nat (nat (- i)) else str_nat (nat i))"

definition hex_digit :: "nat \<Rightarrow> char" where
  "hex_digit n = (if n < 10 then char_of (48 + n) else char_of (87 + n))"

definition is_printable :: "char \<Rightarrow> bool" where
  "is_printable c =
     (let n = (of_char c :: nat) in (32 \<le> n \<and> n < 127) \<or> (161 \<le> n \<and> n \<noteq> 173))"

definition repr_char :: "char \<Rightarrow> char \<Rightarrow> string" where
  "repr_char quote ch =
     (let n = (of_char ch :: nat)
      in if ch = quote \<or> ch = CHR 0x5C then [CHR 0x5C, ch]
         else if n = 9 then [CHR 0x5C, CHR ''t'']
         else if n = 10 then [CHR 0x5C, CHR ''n'']
         else if n = 13 then [CHR 0x5C, CHR ''r'']
         else if is_printable ch then [ch]
         else [CHR 0x5C, CHR ''x'', hex_digit (n div 16), hex_digit (n mod 16)])"

definition repr_str :: "string \<Rightarrow> string" where
  "repr_str s =
     (let quote = (if CHR 0x27 \<in> set s \<and> CHR 0x22 \<notin> set s then CHR 0x22 else CHR 0x27)
      in [quote] @ concat (map (repr_char quote) s) @ [quote])"

fun join_comma :: "string list \<Rightarrow> string" where
  "join_comma [] = []"
| "join_comma [x] = x"
| "join_comma (x # y # zs) = x @ '', '' @ join_comma (y # zs)"

fun py_repr :: "pyval \<Rightarrow> string" where
  "py_repr PNone = ''None''"
| "py_repr (PBool b) = (if b then ''True'' else ''False'')"
| "py_repr (PInt i) = str_int i"
| "py_repr (PFloat c cs) = c # cs"
| "py_repr (PStr s) = repr_str s"
| "py_repr (PList xs) = ''['' @ join_comma (map py_repr xs) @ '']''"
| "py_repr (PDict d) =
     ''{'' @ join_comma (map (\<lambda>kv. repr_str (fst kv) @ '': '' @ py_repr (snd kv)) d) @ ''}''"

definition py_str :: "pyval \<Rightarrow> string" where
  "py_str v = (case v of PStr s \<Rightarrow> s | _ \<Rightarrow> py_repr v)"

declare str_nat.simps [simp del]

section \<open>Configuration\<close>

text \<open>
  The two entries of \<^verbatim>\<open>CONFIG\<close> that the modelled functions read, after \<^verbatim>\<open>int(...)\<close>:
  \<^verbatim>\<open>BIG_THRESHOLD\<close> (default 5) and \<^verbatim>\<open>DEDUP_WINDOW\<close> (default 200).
\<close>

record config =
  BIG_THRESHOLD :: int
  DEDUP_WINDOW :: int

section \<open>The payload parser\<close>

text \<open>\<^verbatim>\<open>safe_get(d, *keys)\<close> with its default \<^verbatim>\<open>None\<close>.\<close>

fun safe_get :: "pyval \<Rightarrow> string list \<Rightarrow> pyval" where
  "safe_get cur [] = cur"
| "safe_get cur (k # ks) =
     (case cur of
        PDict d \<Rightarrow> (case map_of d k of Some v \<Rightarrow> safe_get v ks | None \<Rightarrow> PNone)
      | _ \<Rightarrow> PNone)"

text \<open>
  What \<^verbatim>\<open>parse_number_from_payload\<close> returns when it returns a dict. The number is an
  \<open>int\<close>; where the source returns the \<^verbatim>\<open>bool\<close> it found (a \<^verbatim>\<open>bool\<close> is an \<^verbatim>\<open>int\<close> in
  Python), the event holds its integer value.
\<close>

record event =
  issue :: "string option"
  number :: int
  raw :: pyval

definition candidates :: "pyval \<Rightarrow> pyval list" where
  "candidates data =
     [safe_get data [''number''],
      safe_get data [''result''],
      safe_get data [''openCode''],
      safe_get data [''lucky''],
      safe_get data [''lottery'', ''number''],
      safe_get data [''data'', ''number'']]"

text \<open>
  One round of the loop over the candidates: \<open>Some n\<close> when the round returns with the
  number \<open>n\<close>, \<open>None\<close> when the loop goes on.
\<close>

fun candidate_number :: "pyval \<Rightarrow> int option" where
  "candidate_number (PInt c) = (if 0 \<le> c \<and> c \<le> 99 then Some c else None)"
| "candidate_number (PBool b) =
     (let c = (if b then 1 else 0) in if 0 \<le> c \<and> c \<le> 99 then Some c else None)"
| "candidate_number (PStr c) =
     (case re_search (match_digits at_end) (strip c) of
        Some m \<Rightarrow> (let n = int_of_digits m in if 0 \<le> n \<and> n \<le> 99 then Some n else None)
      | None \<Rightarrow> None)"
| "candidate_number _ = None"

fun first_candidate :: "pyval list \<Rightarrow> int option" where
  "first_candidate [] = None"
| "first_candidate (c # cs) =
     (case candidate_number c of Some n \<Rightarrow> Some n | None \<Rightarrow> first_candidate cs)"

definition resolve_issue :: "pyval \<Rightarrow> string option" where
  "resolve_issue data =
     (let iss = py_str (py_or (safe_get data [''issue''])
                       (py_or (safe_get data [''expect''])
                       (py_or (safe_get data [''period'']) (PStr []))))
      in if iss \<noteq> [] then Some iss else None)"

text \<open>
  The loop over the collection keys: the last element of the first value that is a
  non-empty list, on which the parser then returns its recursive call.
\<close>

fun collection_last :: "pyval \<Rightarrow> string list \<Rightarrow> pyval option" where
  "collection_last data [] = None"
| "collection_last data (k # ks) =
     (case safe_get data [k] of
        PList arr \<Rightarrow> (if arr \<noteq> [] then Some (last arr) else collection_last data ks)
      | _ \<Rightarrow> collection_last data ks)"

definition collection_keys :: "string list" where
  "collection_keys = [''list'', ''rows'', ''data'', ''resultList'']"

definition looks_json :: "string \<Rightarrow> bool" where
  "looks_json s =
     (s \<noteq> [] \<and>
      ((hd s = CHR 0x7B \<and> last s = CHR 0x7D) \<or> (hd s = CHR 0x5B \<and> last s = CHR 0x5D)))"

text \<open>The trailing number of a string payload, after the JSON attempt.\<close>

definition string_number :: "pyval \<Rightarrow> string \<Rightarrow> event option" where
  "string_number data s =
     (case re_search (match_digits spaces_to_end) s of
        Some m \<Rightarrow>
          (let n = int_of_digits m
           in if 0 \<le> n \<and> n \<le> 99 then Some \<lparr>issue = None, number = n, raw = data\<rparr> else None)
      | None \<Rightarrow> None)"

text \<open>
  \<^verbatim>\<open>parse_number_from_payload\<close>. The library call \<^verbatim>\<open>json.loads\<close> is a parameter:
  \<open>None\<close> when it raises, which the source catches. The result is \<open>Some None\<close> when the
  source returns \<^verbatim>\<open>None\<close>, \<open>Some (Some e)\<close> when it returns an event, and \<open>None\<close> when
  the recursion does not end. The interpreter's recursion limit is not modelled.
\<close>

partial_function (option) parse_number_from_payload ::
  "(string \<Rightarrow> pyval option) \<Rightarrow> pyval \<Rightarrow> event option option" where
  "parse_number_from_payload json_loads data =
     (case data of
        PDict d \<Rightarrow>
          (case first_candidate (candidates data) of
             Some n \<Rightarrow> Some (Some \<lparr>issue = resolve_issue data, number = n, raw = data\<rparr>)
           | None \<Rightarrow>
               (case collection_last data collection_keys of
                  Some v \<Rightarrow> parse_number_from_payload json_loads v
                | None \<Rightarrow> Some None))
      | PStr str \<Rightarrow>
          (let s = strip str
           in if looks_json s
              then (case json_loads s of
                      Some v \<Rightarrow> parse_number_from_payload json_loads v
                    | None \<Rightarrow> Some (string_number data s))
              else Some (string_number data s))
      | PList xs \<Rightarrow>
          (if xs \<noteq> [] then parse_number_from_payload json_loads (last xs) else Some None)
      | _ \<Rightarrow> Some None)"

declare parse_number_from_payload.simps [code]

section \<open>The signal\<close>

text \<open>
  The dict that \<^verbatim>\<open>make_signal\<close> returns, without the text \<^verbatim>\<open>meta.notes\<close>.
\<close>

record signal =
  decision :: string
  confidence :: int
  meta_num :: int

definition make_signal :: "config \<Rightarrow> int \<Rightarrow> signal" where
  "make_signal cfg n =
     (let big_threshold = BIG_THRESHOLD cfg;
          big_small = (if n \<ge> big_threshold then ''BIG'' else ''SMALL'');
          even_odd = (if n mod 2 = 0 then ''EVEN'' else ''ODD'');
          conf = 60;
          conf = (if n = big_threshold \<or> n = big_threshold - 1 then 55 else conf);
          conf = (if n = 0 \<or> n = 9 then 65 else conf)
      in \<lparr>decision = big_small @ '' / '' @ even_odd, confidence = conf, meta_num = n\<rparr>)"

section \<open>The window of seen keys\<close>

text \<open>
  \<^verbatim>\<open>dedup_key\<close>. The clock is a parameter: \<open>minute\<close> is \<^verbatim>\<open>int(time.time()//60)\<close>.
\<close>

definition dedup_key :: "int \<Rightarrow> string option \<Rightarrow> int \<Rightarrow> string" where
  "dedup_key minute iss n =
     (case iss of
        Some s \<Rightarrow> (if s \<noteq> [] then s else str_int n @ ''-'' @ str_int minute)
      | None \<Rightarrow> str_int n @ ''-'' @ str_int minute)"

text \<open>
  \<^verbatim>\<open>del xs[:-k]\<close>: the slice's stop is \<open>- k\<close>; a negative stop counts from the end,
  and the stop is clamped to the list.
\<close>

definition del_until_neg :: "int \<Rightarrow> 'a list \<Rightarrow> 'a list" where
  "del_until_neg k xs =
     (let len = int (length xs);
          stop = - k;
          stop = (if stop < 0 then max (stop + len) 0 else min stop len)
      in drop (nat stop) xs)"

text \<open>
  The test and the insertion of \<^verbatim>\<open>handle_result\<close> on \<^verbatim>\<open>SEEN_KEYS\<close> (the specification's
  \<^verbatim>\<open>accept\<close>): whether the key is new, and the list afterwards.
\<close>

definition accept :: "config \<Rightarrow> string list \<Rightarrow> string \<Rightarrow> bool \<times> string list" where
  "accept cfg seen_keys dkey =
     (if dkey \<in> set seen_keys then (False, seen_keys)
      else
        (let seen_keys = seen_keys @ [dkey];
             max_keep = DEDUP_WINDOW cfg
         in if int (length seen_keys) > max_keep
            then (True, del_until_neg max_keep seen_keys)
            else (True, seen_keys)))"

text \<open>A run of presentations, the window threaded through.\<close>

fun accept_all :: "config \<Rightarrow> string list \<Rightarrow> string list \<Rightarrow> bool list \<times> string list" where
  "accept_all cfg seen_keys [] = ([], seen_keys)"
| "accept_all cfg seen_keys (k # ks) =
     (case accept cfg seen_keys k of
        (r, seen_keys') \<Rightarrow>
          (case accept_all cfg seen_keys' ks of (rs, seen_keys'') \<Rightarrow> (r # rs, seen_keys'')))"

text \<open>
  \<^verbatim>\<open>handle_result\<close>, with \<^verbatim>\<open>SEEN_KEYS\<close> passed in and returned. The pushes to the web
  endpoint and to Telegram are its only other effects; the model returns what they are
  given (the issue and the signal), or \<open>None\<close> when the function returns early.
\<close>

record payload =
  payload_issue :: "string option"
  payload_signal :: signal

definition handle_result ::
  "config \<Rightarrow> int \<Rightarrow> string list \<Rightarrow> event \<Rightarrow> payload option \<times> string list" where
  "handle_result cfg minute seen_keys result =
     (let n = number result;
          iss = issue result;
          dkey = dedup_key minute iss n
      in case accept cfg seen_keys dkey of
           (False, seen_keys') \<Rightarrow> (None, seen_keys')
         | (True, seen_keys') \<Rightarrow>
             (Some \<lparr>payload_issue = iss, payload_signal = make_signal cfg n\<rparr>, seen_keys'))"

section \<open>The specification's string rule\<close>

text \<open>
  The specification's wording of the string rule (its 4.1 and 8), for comparison with the
  two regular expressions: the run of digits that ends the text, cut to its last two
  digits and read as a number; absent when the text does not end in a digit.
\<close>

definition trailing_run :: "string \<Rightarrow> string" where
  "trailing_run t = rev (takeWhile is_digit (rev t))"

definition spec_trailing_number :: "string \<Rightarrow> int option" where
  "spec_trailing_number t =
     (let run = trailing_run t
      in if run = [] then None else Some (int_of_digits (drop (length run - 2) run)))"

section \<open>Properties of the signal\<close>

text \<open>
  C1. For every integer \<open>n\<close> (so for every \<open>n\<close> from 0 to 99) and every threshold, the
  decision label of \<open>make_signal\<close> has the size \<^verbatim>\<open>BIG\<close> exactly when \<open>n\<close> is at least the
  threshold and \<^verbatim>\<open>SMALL\<close> exactly when it is below, and the parity \<^verbatim>\<open>EVEN\<close> exactly when
  \<open>n mod 2 = 0\<close> and \<^verbatim>\<open>ODD\<close> exactly when it is not.
\<close>

theorem make_signal_size_parity:
  "((decision (make_signal cfg n) = ''BIG / EVEN'' \<or> decision (make_signal cfg n) = ''BIG / ODD'')
      = (n \<ge> BIG_THRESHOLD cfg)) \<and>
   ((decision (make_signal cfg n) = ''SMALL / EVEN'' \<or> decision (make_signal cfg n) = ''SMALL / ODD'')
      = (n < BIG_THRESHOLD cfg)) \<and>
   ((decision (make_signal cfg n) = ''BIG / EVEN'' \<or> decision (make_signal cfg n) = ''SMALL / EVEN'')
      = (n mod 2 = 0)) \<and>
   ((decision (make_signal cfg n) = ''BIG / ODD'' \<or> decision (make_signal cfg n) = ''SMALL / ODD'')
      = (n mod 2 = 1))"
  by (auto simp add: make_signal_def Let_def)

theorem make_signal_size_parity_witness:
  "decision (make_signal \<lparr>BIG_THRESHOLD = 5, DEDUP_WINDOW = 200\<rparr> 7) = ''BIG / ODD'' \<and>
   decision (make_signal \<lparr>BIG_THRESHOLD = 5, DEDUP_WINDOW = 200\<rparr> 4) = ''SMALL / EVEN''"
  using make_signal_size_parity [of "\<lparr>BIG_THRESHOLD = 5, DEDUP_WINDOW = 200\<rparr>" 7]
    make_signal_size_parity [of "\<lparr>BIG_THRESHOLD = 5, DEDUP_WINDOW = 200\<rparr>" 4]
  by (simp add: make_signal_def)

text \<open>
  C2. The confidence of \<open>make_signal\<close> is 65 when \<open>n\<close> is 0 or 9; otherwise 55 when \<open>n\<close> is
  the threshold or one below it; otherwise 60. The check for 0 and 9 comes last in the
  source and overwrites the boundary value.
\<close>

theorem make_signal_confidence:
  "confidence (make_signal cfg n) =
     (if n = 0 \<or> n = 9 then 65
      else if n = BIG_THRESHOLD cfg \<or> n = BIG_THRESHOLD cfg - 1 then 55 else 60)"
  by (simp add: make_signal_def Let_def)

theorem make_signal_confidence_witness:
  "confidence (make_signal \<lparr>BIG_THRESHOLD = 9, DEDUP_WINDOW = 200\<rparr> 9) = 65 \<and>
   confidence (make_signal \<lparr>BIG_THRESHOLD = 5, DEDUP_WINDOW = 200\<rparr> 4) = 55 \<and>
   confidence (make_signal \<lparr>BIG_THRESHOLD = 5, DEDUP_WINDOW = 200\<rparr> 3) = 60"
  using make_signal_confidence [of "\<lparr>BIG_THRESHOLD = 9, DEDUP_WINDOW = 200\<rparr>" 9]
    make_signal_confidence [of "\<lparr>BIG_THRESHOLD = 5, DEDUP_WINDOW = 200\<rparr>" 4]
    make_signal_confidence [of "\<lparr>BIG_THRESHOLD = 5, DEDUP_WINDOW = 200\<rparr>" 3]
  by simp

text \<open>
  C3, as stated, fails: with the threshold 9 the number 9 is the threshold and gets the
  confidence 65, and with the threshold 1 the number 0 is one below the threshold and
  gets 65 as well.
\<close>

theorem boundary_confidence_counterexample:
  "confidence (make_signal \<lparr>BIG_THRESHOLD = 9, DEDUP_WINDOW = 200\<rparr> 9) \<noteq> 55 \<and>
   confidence (make_signal \<lparr>BIG_THRESHOLD = 1, DEDUP_WINDOW = 200\<rparr> (1 - 1)) \<noteq> 55"
  by (simp add: make_signal_def)

text \<open>
  C3, amended. With the threshold \<open>t\<close>: the confidence at \<open>t\<close> is 55 unless \<open>t\<close> is 0 or 9,
  where it is 65; the confidence at \<open>t - 1\<close> is 55 unless \<open>t - 1\<close> is 0 or 9 (that is,
  unless \<open>t\<close> is 1 or 10), where it is 65.
\<close>

theorem boundary_confidence:
  "(BIG_THRESHOLD cfg \<noteq> 0 \<and> BIG_THRESHOLD cfg \<noteq> 9 \<longrightarrow>
      confidence (make_signal cfg (BIG_THRESHOLD cfg)) = 55) \<and>
   (BIG_THRESHOLD cfg = 0 \<or> BIG_THRESHOLD cfg = 9 \<longrightarrow>
      confidence (make_signal cfg (BIG_THRESHOLD cfg)) = 65) \<and>
   (BIG_THRESHOLD cfg \<noteq> 1 \<and> BIG_THRESHOLD cfg \<noteq> 10 \<longrightarrow>
      confidence (make_signal cfg (BIG_THRESHOLD cfg - 1)) = 55) \<and>
   (BIG_THRESHOLD cfg = 1 \<or> BIG_THRESHOLD cfg = 10 \<longrightarrow>
      confidence (make_signal cfg (BIG_THRESHOLD cfg - 1)) = 65)"
  by (auto simp add: make_signal_def Let_def)

theorem boundary_confidence_witness:
  "confidence (make_signal \<lparr>BIG_THRESHOLD = 5, DEDUP_WINDOW = 200\<rparr> 5) = 55 \<and>
   confidence (make_signal \<lparr>BIG_THRESHOLD = 5, DEDUP_WINDOW = 200\<rparr> 4) = 55 \<and>
   confidence (make_signal \<lparr>BIG_THRESHOLD = 9, DEDUP_WINDOW = 200\<rparr> 9) = 65 \<and>
   confidence (make_signal \<lparr>BIG_THRESHOLD = 10, DEDUP_WINDOW = 200\<rparr> 9) = 65"
  using boundary_confidence [of "\<lparr>BIG_THRESHOLD = 5, DEDUP_WINDOW = 200\<rparr>"]
    boundary_confidence [of "\<lparr>BIG_THRESHOLD = 9, DEDUP_WINDOW = 200\<rparr>"]
    boundary_confidence [of "\<lparr>BIG_THRESHOLD = 10, DEDUP_WINDOW = 200\<rparr>"]
  by simp

section \<open>Properties of the window of seen keys\<close>

lemma accept_fst: "fst (accept cfg seen_keys dkey) = (dkey \<notin> set seen_keys)"
  by (simp add: accept_def Let_def)

lemma accept_duplicate:
  "dkey \<in> set seen_keys \<Longrightarrow> accept cfg seen_keys dkey = (False, seen_keys)"
  by (simp add: accept_def)

lemma accept_new:
  assumes "dkey \<notin> set seen_keys" and "1 \<le> DEDUP_WINDOW cfg"
  shows "accept cfg seen_keys dkey =
           (True, drop (length seen_keys + 1 - nat (DEDUP_WINDOW cfg)) (seen_keys @ [dkey]))"
proof (cases "int (length (seen_keys @ [dkey])) > DEDUP_WINDOW cfg")
  case True
  then have "nat (max (- DEDUP_WINDOW cfg + int (length (seen_keys @ [dkey]))) 0) =
             length seen_keys + 1 - nat (DEDUP_WINDOW cfg)"
    using assms(2) by simp
  with True assms show ?thesis
    by (simp add: accept_def del_until_neg_def Let_def)
next
  case False
  then have "length seen_keys + 1 - nat (DEDUP_WINDOW cfg) = 0"
    by simp
  with False assms show ?thesis
    by (simp add: accept_def Let_def)
qed

lemma accept_keeps_key:
  assumes "1 \<le> DEDUP_WINDOW cfg"
  shows "dkey \<in> set (snd (accept cfg seen_keys dkey))"
proof (cases "dkey \<in> set seen_keys")
  case True
  then show ?thesis by (simp add: accept_duplicate)
next
  case False
  have "length seen_keys + 1 - nat (DEDUP_WINDOW cfg) \<le> length seen_keys"
    using assms by simp
  then show ?thesis
    using False assms by (simp add: accept_new)
qed

lemma accept_length:
  assumes "1 \<le> DEDUP_WINDOW cfg" and "int (length seen_keys) \<le> DEDUP_WINDOW cfg"
  shows "int (length (snd (accept cfg seen_keys dkey))) \<le> DEDUP_WINDOW cfg"
proof (cases "dkey \<in> set seen_keys")
  case True
  with assms show ?thesis by (simp add: accept_duplicate)
next
  case False
  with assms show ?thesis by (simp add: accept_new)
qed

lemma accept_all_length:
  "1 \<le> DEDUP_WINDOW cfg \<Longrightarrow> int (length seen_keys) \<le> DEDUP_WINDOW cfg \<Longrightarrow>
   int (length (snd (accept_all cfg seen_keys ks))) \<le> DEDUP_WINDOW cfg"
proof (induction ks arbitrary: seen_keys)
  case Nil
  then show ?case by simp
next
  case (Cons k ks)
  have "int (length (snd (accept cfg seen_keys k))) \<le> DEDUP_WINDOW cfg"
    using Cons.prems by (rule accept_length)
  from Cons.IH [OF Cons.prems(1) this] show ?case
    by (cases "accept cfg seen_keys k"; cases "accept_all cfg (snd (accept cfg seen_keys k)) ks")
      simp
qed

lemma handle_result_window:
  "snd (handle_result cfg minute seen_keys result) =
   snd (accept cfg seen_keys (dedup_key minute (issue result) (number result)))"
  by (simp add: handle_result_def Let_def split: prod.splits bool.splits)

text \<open>
  C4. A key is accepted exactly when it is not in the window, so the first presentation
  of a key is accepted and a presentation of a key still in the window is not; with a
  capacity of at least 1 a key is in the window right after its presentation, so
  presenting it again at once is refused. With the capacity 2 the run a, b, a, c, a
  gives true, true, false, true, true, and \<open>c\<close> evicts \<open>a\<close>.
\<close>

theorem accept_first_then_duplicate:
  "fst (accept cfg seen_keys dkey) = (dkey \<notin> set seen_keys) \<and>
   (1 \<le> DEDUP_WINDOW cfg \<longrightarrow>
      dkey \<in> set (snd (accept cfg seen_keys dkey)) \<and>
      fst (accept cfg (snd (accept cfg seen_keys dkey)) dkey) = False) \<and>
   accept_all (cfg\<lparr>DEDUP_WINDOW := 2\<rparr>) [] [''a'', ''b'', ''a'', ''c'', ''a''] =
     ([True, True, False, True, True], [''c'', ''a'']) \<and>
   snd (accept_all (cfg\<lparr>DEDUP_WINDOW := 2\<rparr>) [] [''a'', ''b'', ''a'', ''c'']) = [''b'', ''c'']"
proof -
  have "1 \<le> DEDUP_WINDOW cfg \<Longrightarrow> fst (accept cfg (snd (accept cfg seen_keys dkey)) dkey) = False"
    by (simp add: accept_fst accept_keeps_key)
  moreover have "accept_all (cfg\<lparr>DEDUP_WINDOW := 2\<rparr>) [] [''a'', ''b'', ''a'', ''c'', ''a''] =
      ([True, True, False, True, True], [''c'', ''a''])"
    by (simp add: accept_def del_until_neg_def Let_def)
  moreover have "snd (accept_all (cfg\<lparr>DEDUP_WINDOW := 2\<rparr>) [] [''a'', ''b'', ''a'', ''c'']) =
      [''b'', ''c'']"
    by (simp add: accept_def del_until_neg_def Let_def)
  ultimately show ?thesis
    by (simp add: accept_fst accept_keeps_key)
qed

theorem accept_first_then_duplicate_witness:
  "(1::int) \<le> 2 \<and>
   fst (accept \<lparr>BIG_THRESHOLD = 5, DEDUP_WINDOW = 2\<rparr> [''a'', ''b''] ''c'') = True \<and>
   fst (accept \<lparr>BIG_THRESHOLD = 5, DEDUP_WINDOW = 2\<rparr>
          (snd (accept \<lparr>BIG_THRESHOLD = 5, DEDUP_WINDOW = 2\<rparr> [''a'', ''b''] ''c'')) ''c'') = False"
  using accept_first_then_duplicate
    [of "\<lparr>BIG_THRESHOLD = 5, DEDUP_WINDOW = 2\<rparr>" "[''a'', ''b'']" "''c''"]
  by simp

text \<open>
  C5. With a capacity \<open>N\<close> of at least 1, the window holds at most \<open>N\<close> keys after any
  run of presentations from the empty window; one presentation, and one call of
  \<open>handle_result\<close>, keep the bound; and a new key leaves the last \<open>N\<close> keys of the old
  window followed by the key, the oldest dropped first.
\<close>

theorem window_bounded:
  "1 \<le> DEDUP_WINDOW cfg \<Longrightarrow>
   int (length (snd (accept_all cfg [] ks))) \<le> DEDUP_WINDOW cfg \<and>
   (int (length seen_keys) \<le> DEDUP_WINDOW cfg \<longrightarrow>
      int (length (snd (accept cfg seen_keys dkey))) \<le> DEDUP_WINDOW cfg \<and>
      int (length (snd (handle_result cfg minute seen_keys result))) \<le> DEDUP_WINDOW cfg) \<and>
   (dkey \<notin> set seen_keys \<longrightarrow>
      snd (accept cfg seen_keys dkey) =
        drop (length seen_keys + 1 - nat (DEDUP_WINDOW cfg)) (seen_keys @ [dkey]))"
  by (simp add: accept_all_length accept_length handle_result_window accept_new)

theorem window_bounded_witness:
  "(1::int) \<le> 2 \<and>
   int (length (snd (accept_all \<lparr>BIG_THRESHOLD = 5, DEDUP_WINDOW = 2\<rparr> [] [''a'', ''b'', ''c'']))) \<le> 2 \<and>
   int (length [''a'', ''b'']) \<le> 2 \<and> ''c'' \<notin> set [''a'', ''b''] \<and>
   snd (accept \<lparr>BIG_THRESHOLD = 5, DEDUP_WINDOW = 2\<rparr> [''a'', ''b''] ''c'') = [''b'', ''c'']"
  using window_bounded
    [of "\<lparr>BIG_THRESHOLD = 5, DEDUP_WINDOW = 2\<rparr>" "[''a'', ''b'', ''c'']" "[''a'', ''b'']" "''c''"]
  by simp

lemma accept_all_duplicate:
  "k \<in> set seen_keys \<Longrightarrow>
   accept_all cfg seen_keys (k # ks) =
     (False # fst (accept_all cfg seen_keys ks), snd (accept_all cfg seen_keys ks))"
  by (simp add: accept_duplicate split: prod.splits)

text \<open>
  C6. Presenting a key that is in the window leaves the window as it was, in content and
  order, in \<open>accept\<close> and in \<open>handle_result\<close> (which then reports nothing); whatever
  is presented afterwards meets the window it would have met without the duplicate, so
  the duplicate's place in the eviction order is not renewed.
\<close>

theorem duplicate_leaves_window:
  "dkey \<in> set seen_keys \<Longrightarrow>
   accept cfg seen_keys dkey = (False, seen_keys) \<and>
   accept_all cfg seen_keys (dkey # ks) =
     (False # fst (accept_all cfg seen_keys ks), snd (accept_all cfg seen_keys ks)) \<and>
   (dedup_key minute (issue result) (number result) = dkey \<longrightarrow>
      handle_result cfg minute seen_keys result = (None, seen_keys))"
  by (simp add: accept_duplicate handle_result_def Let_def split: prod.splits)

theorem duplicate_leaves_window_witness:
  "''a'' \<in> set [''a'', ''b''] \<and>
   accept \<lparr>BIG_THRESHOLD = 5, DEDUP_WINDOW = 2\<rparr> [''a'', ''b''] ''a'' = (False, [''a'', ''b'']) \<and>
   accept_all \<lparr>BIG_THRESHOLD = 5, DEDUP_WINDOW = 2\<rparr> [''a'', ''b''] [''a'', ''c''] =
     ([False, True], [''b'', ''c'']) \<and>
   handle_result \<lparr>BIG_THRESHOLD = 5, DEDUP_WINDOW = 2\<rparr> 0 [''a'', ''b'']
     \<lparr>issue = Some ''a'', number = 3, raw = PNone\<rparr> = (None, [''a'', ''b''])"
  using duplicate_leaves_window
    [of "''a''" "[''a'', ''b'']" "\<lparr>BIG_THRESHOLD = 5, DEDUP_WINDOW = 2\<rparr>" "[''c'']" 0
        "\<lparr>issue = Some ''a'', number = 3, raw = PNone\<rparr>"]
  by (simp add: accept_def del_until_neg_def Let_def dedup_key_def)

section \<open>Properties of the parser\<close>

lemma collection_last_source:
  "collection_last data ks = Some v \<Longrightarrow>
   \<exists>k arr. safe_get data [k] = PList arr \<and> arr \<noteq> [] \<and> v = last arr"
proof (induction ks)
  case Nil
  then show ?case by simp
next
  case (Cons k ks)
  then show ?case
    by (cases "safe_get data [k]") (auto simp del: safe_get.simps split: if_splits)
qed

text \<open>
  The parser returns on every payload when \<^verbatim>\<open>json.loads\<close> raises on every string it is
  given: the other recursive calls are on a part of the payload.
\<close>

lemma parse_returns:
  assumes "\<And>s. json_loads s = None"
  shows "\<exists>r. parse_number_from_payload json_loads data = Some r"
proof (induction data)
  case (PList xs)
  show ?case
  proof (cases "xs = []")
    case True
    then show ?thesis by (simp add: parse_number_from_payload.simps)
  next
    case False
    then have "last xs \<in> set xs" by simp
    then have "\<exists>r. parse_number_from_payload json_loads (last xs) = Some r"
      by (rule PList.IH)
    with False show ?thesis
      by (subst parse_number_from_payload.simps) simp
  qed
next
  case (PDict d)
  show ?case
  proof (cases "first_candidate (candidates (PDict d))")
    case (Some n)
    then show ?thesis by (subst parse_number_from_payload.simps) simp
  next
    case None
    show ?thesis
    proof (cases "collection_last (PDict d) collection_keys")
      case cn: None
      with None show ?thesis by (subst parse_number_from_payload.simps) simp
    next
      case (Some v)
      then obtain k arr where k: "safe_get (PDict d) [k] = PList arr" "arr \<noteq> []" "v = last arr"
        using collection_last_source by blast
      then have "map_of d k = Some (PList arr)"
        by (auto split: option.splits)
      then have "(k, PList arr) \<in> set d" by (rule map_of_SomeD)
      then have "\<exists>r. parse_number_from_payload json_loads (PList arr) = Some r"
        using PDict.IH by fastforce
      then have "\<exists>r. parse_number_from_payload json_loads v = Some r"
        using k(2,3) by (subst (asm) parse_number_from_payload.simps) simp
      with None Some show ?thesis
        by (subst parse_number_from_payload.simps) simp
    qed
  qed
next
  case (PStr s)
  show ?case
    by (subst parse_number_from_payload.simps) (simp add: Let_def assms)
qed (simp_all add: parse_number_from_payload.simps)

lemma candidate_number_range: "candidate_number c = Some n \<Longrightarrow> 0 \<le> n \<and> n \<le> 99"
  by (cases c) (auto simp add: Let_def split: if_splits option.splits)

lemma first_candidate_range: "first_candidate cs = Some n \<Longrightarrow> 0 \<le> n \<and> n \<le> 99"
  by (induction cs) (auto split: option.splits dest: candidate_number_range)

lemma string_number_range: "string_number data s = Some ev \<Longrightarrow> 0 \<le> number ev \<and> number ev \<le> 99"
  by (auto simp add: string_number_def Let_def split: option.splits if_splits)

lemma parse_range:
  assumes "parse_number_from_payload json_loads data = Some r"
  shows "\<forall>ev. r = Some ev \<longrightarrow> 0 \<le> number ev \<and> number ev \<le> 99"
proof (rule parse_number_from_payload.raw_induct [OF _ assms])
  fix parse :: "(string \<Rightarrow> pyval option) \<Rightarrow> pyval \<Rightarrow> event option option"
  fix json_loads data r
  assume IH: "\<And>jl v y. parse jl v = Some y \<Longrightarrow>
      \<forall>ev. y = Some ev \<longrightarrow> 0 \<le> number ev \<and> number ev \<le> 99"
  assume step: "(case data of
        PStr str \<Rightarrow>
          let s = strip str
          in if looks_json s
             then case json_loads s of None \<Rightarrow> Some (string_number data s)
                  | Some v \<Rightarrow> parse json_loads v
             else Some (string_number data s)
      | PList xs \<Rightarrow> if xs \<noteq> [] then parse json_loads (last xs) else Some None
      | PDict d \<Rightarrow>
          (case first_candidate (candidates data) of
             None \<Rightarrow>
               (case collection_last data collection_keys of
                  None \<Rightarrow> Some None
                | Some v \<Rightarrow> parse json_loads v)
           | Some n \<Rightarrow> Some (Some \<lparr>issue = resolve_issue data, number = n, raw = data\<rparr>))
      | _ \<Rightarrow> Some None) = Some r"
  show "\<forall>ev. r = Some ev \<longrightarrow> 0 \<le> number ev \<and> number ev \<le> 99"
  proof (cases data)
    case (PDict d)
    with step IH show ?thesis
      by (auto split: option.splits dest: first_candidate_range)
  next
    case (PStr str)
    with step IH show ?thesis
      by (auto simp add: Let_def split: option.splits if_splits dest: string_number_range)
  next
    case (PList xs)
    with step IH show ?thesis
      by (auto split: if_splits)
  qed (use step in auto)
qed

text \<open>
  C7. Whenever \<open>parse_number_from_payload\<close> returns an event, for any payload and
  whatever \<^verbatim>\<open>json.loads\<close> does, the event's number is from 0 to 99; a candidate yields
  a number only in that range, an integer candidate outside it yields none, and the
  payload \<^verbatim>\<open>{"number": 150}\<close> gives no event.
\<close>

theorem parsed_number_in_range:
  "(parse_number_from_payload json_loads data = Some (Some ev) \<longrightarrow>
      0 \<le> number ev \<and> number ev \<le> 99) \<and>
   (candidate_number v = Some n \<longrightarrow> 0 \<le> n \<and> n \<le> 99) \<and>
   (c < 0 \<or> 99 < c \<longrightarrow> candidate_number (PInt c) = None) \<and>
   parse_number_from_payload json_loads (PDict [(''number'', PInt 150)]) = Some None"
proof -
  have "parse_number_from_payload json_loads (PDict [(''number'', PInt 150)]) = Some None"
    by (simp add: parse_number_from_payload.simps candidates_def collection_keys_def)
  then show ?thesis
    using parse_range [of json_loads data "Some ev"] candidate_number_range [of v n]
    by auto
qed

theorem parsed_number_in_range_witness:
  "parse_number_from_payload (\<lambda>s. None) (PDict [(''number'', PInt 7), (''issue'', PStr ''X1'')]) =
     Some (Some \<lparr>issue = Some ''X1'', number = 7,
                 raw = PDict [(''number'', PInt 7), (''issue'', PStr ''X1'')]\<rparr>) \<and>
   (0::int) \<le> 7 \<and> (7::int) \<le> 99 \<and>
   candidate_number (PStr ''abc 07'') = Some 7 \<and>
   candidate_number (PInt 150) = None"
  using parsed_number_in_range
    [of "\<lambda>s. None" "PDict [(''number'', PInt 7), (''issue'', PStr ''X1'')]"
        "\<lparr>issue = Some ''X1'', number = 7,
          raw = PDict [(''number'', PInt 7), (''issue'', PStr ''X1'')]\<rparr>"
        "PStr ''abc 07''" 7 150]
  by (simp add: parse_number_from_payload.simps candidates_def resolve_issue_def py_or_def
      py_str_def strip_def is_space_def is_digit_def at_end_def int_of_digits_def
      digit_value_def)

lemma is_digit_not_space: "is_digit c \<Longrightarrow> \<not> is_space c"
  by (simp add: is_digit_def is_space_def Let_def)

lemma spaces_to_end_last: "u \<noteq> [] \<Longrightarrow> \<not> is_space (last u) \<Longrightarrow> \<not> spaces_to_end u"
  by (auto simp add: spaces_to_end_def list_all_iff)

lemma match_digits_exact:
  assumes "u \<noteq> []" and "\<not> is_space (last u)"
  shows "match_digits spaces_to_end u =
           (if length u \<le> 2 \<and> list_all is_digit u then Some u else None)"
proof (cases u)
  case Nil
  with assms show ?thesis by simp
next
  case (Cons a u')
  show ?thesis
  proof (cases u')
    case Nil
    with Cons show ?thesis by (auto simp add: spaces_to_end_def)
  next
    case (Cons b r)
    with \<open>u = a # u'\<close> have u: "u = a # b # r" by simp
    show ?thesis
    proof (cases "r = []")
      case True
      with u assms show ?thesis
        by (auto simp add: spaces_to_end_def is_digit_not_space)
    next
      case False
      with u assms have "\<not> spaces_to_end r" "\<not> spaces_to_end (b # r)"
        by (auto simp add: spaces_to_end_last)
      with u False show ?thesis by (cases r) auto
    qed
  qed
qed

lemma trailing_run_all: "list_all is_digit cs \<Longrightarrow> trailing_run cs = cs"
proof -
  assume "list_all is_digit cs"
  then have "takeWhile is_digit (rev cs) = rev cs"
    by (simp add: takeWhile_eq_all_conv list_all_iff)
  then show ?thesis by (simp only: trailing_run_def rev_rev_ident)
qed

lemma trailing_run_Cons:
  "trailing_run (c # cs) =
     (if list_all is_digit cs then (if is_digit c then c # cs else cs) else trailing_run cs)"
proof (cases "list_all is_digit cs")
  case True
  then have "takeWhile is_digit (rev cs @ [c]) = rev cs @ takeWhile is_digit [c]"
    by (auto simp add: takeWhile_append list_all_iff)
  then have "trailing_run (c # cs) = rev (rev cs @ takeWhile is_digit [c])"
    by (simp only: trailing_run_def rev.simps)
  with True show ?thesis by simp
next
  case False
  then have "takeWhile is_digit (rev cs @ [c]) = takeWhile is_digit (rev cs)"
    by (auto simp add: takeWhile_append list_all_iff)
  then have "trailing_run (c # cs) = trailing_run cs"
    by (simp only: trailing_run_def rev.simps)
  with False show ?thesis by simp
qed

lemma re_search_trailing:
  "t = [] \<or> \<not> is_space (last t) \<Longrightarrow>
   re_search (match_digits spaces_to_end) t =
     (if trailing_run t = [] then None
      else Some (drop (length (trailing_run t) - 2) (trailing_run t)))"
proof (induction t)
  case Nil
  then show ?case by (simp add: trailing_run_def)
next
  case (Cons c cs)
  show ?case
  proof (cases "cs = []")
    case True
    then show ?thesis
      by (simp add: trailing_run_def spaces_to_end_def)
  next
    case False
    with Cons.prems have nsp: "\<not> is_space (last cs)" by simp
    then have IH: "re_search (match_digits spaces_to_end) cs =
       (if trailing_run cs = [] then None
        else Some (drop (length (trailing_run cs) - 2) (trailing_run cs)))"
      using Cons.IH by simp
    have m: "match_digits spaces_to_end (c # cs) =
        (if length (c # cs) \<le> 2 \<and> list_all is_digit (c # cs) then Some (c # cs) else None)"
      using nsp False by (intro match_digits_exact) simp_all
    show ?thesis
    proof (cases "length (c # cs) \<le> 2 \<and> list_all is_digit (c # cs)")
      case True
      with m show ?thesis
        by (simp add: trailing_run_Cons)
    next
      case no: False
      from no have "match_digits spaces_to_end (c # cs) = None"
        by (simp only: m if_False)
      then have e1: "re_search (match_digits spaces_to_end) (c # cs) =
          re_search (match_digits spaces_to_end) cs"
        by simp
      have e2: "(if trailing_run (c # cs) = [] then None
           else Some (drop (length (trailing_run (c # cs)) - 2) (trailing_run (c # cs)))) =
         (if trailing_run cs = [] then None
          else Some (drop (length (trailing_run cs) - 2) (trailing_run cs)))"
      proof (cases "list_all is_digit cs \<and> is_digit c")
        case True
        with no have "2 \<le> length cs" by simp
        then have "length (c # cs) - 2 = Suc (length cs - 2)"
          by simp
        then have "drop (length (c # cs) - 2) (c # cs) = drop (length cs - 2) cs"
          by (simp only: drop_Suc_Cons)
        with True False show ?thesis
          by (simp add: trailing_run_Cons trailing_run_all)
      next
        case False
        then show ?thesis
          by (auto simp add: trailing_run_Cons trailing_run_all)
      qed
      show ?thesis by (simp only: e1 e2 IH)
    qed
  qed
qed

lemma digit_value_range: "is_digit c \<Longrightarrow> 0 \<le> digit_value c \<and> digit_value c \<le> 9"
  by (auto simp add: is_digit_def digit_value_def Let_def)

lemma int_of_digits_range:
  assumes "length ds \<le> 2" and "list_all is_digit ds"
  shows "0 \<le> int_of_digits ds \<and> int_of_digits ds \<le> 99"
proof (cases ds)
  case Nil
  then show ?thesis by (simp add: int_of_digits_def)
next
  case (Cons a r)
  show ?thesis
  proof (cases r)
    case Nil
    with Cons assms digit_value_range [of a] show ?thesis
      by (simp add: int_of_digits_def)
  next
    case (Cons b r')
    with \<open>ds = a # r\<close> assms have "r' = []" by simp
    with Cons \<open>ds = a # r\<close> assms digit_value_range [of a] digit_value_range [of b] show ?thesis
      by (simp add: int_of_digits_def)
  qed
qed

lemma strip_last: "strip s = [] \<or> \<not> is_space (last (strip s))"
proof -
  have "dropWhile is_space (rev (dropWhile is_space s)) = [] \<or>
        \<not> is_space (hd (dropWhile is_space (rev (dropWhile is_space s))))"
    using hd_dropWhile by blast
  then show ?thesis
    by (auto simp add: strip_def last_rev)
qed

lemma string_number_spec:
  assumes "t = [] \<or> \<not> is_space (last t)"
  shows "string_number data t =
           map_option (\<lambda>n. \<lparr>issue = None, number = n, raw = data\<rparr>) (spec_trailing_number t)"
proof (cases "trailing_run t = []")
  case True
  with assms show ?thesis
    by (simp add: string_number_def re_search_trailing spec_trailing_number_def)
next
  case False
  let ?m = "drop (length (trailing_run t) - 2) (trailing_run t)"
  have "list_all is_digit (trailing_run t)"
    by (auto simp add: trailing_run_def list_all_iff dest: set_takeWhileD)
  then have "list_all is_digit ?m"
    by (auto simp add: list_all_iff dest: in_set_dropD)
  moreover have "length ?m \<le> 2" by simp
  ultimately have "0 \<le> int_of_digits ?m \<and> int_of_digits ?m \<le> 99"
    by (intro int_of_digits_range)
  with False assms show ?thesis
    by (simp add: string_number_def re_search_trailing spec_trailing_number_def Let_def)
qed

text \<open>
  C8. For a string payload whose stripped text does not look like JSON, the parser
  returns the event with no issue and the number that the specification's wording
  gives (the last two digits of the run of digits that ends the text), and no event
  when the text does not end in a digit. \<^verbatim>\<open>"round result: 42"\<close> gives 42 and
  \<^verbatim>\<open>"value: 123"\<close> gives 23.
\<close>

theorem string_trailing_digits:
  "(\<not> looks_json (strip s) \<longrightarrow>
      parse_number_from_payload json_loads (PStr s) =
        Some (map_option (\<lambda>n. \<lparr>issue = None, number = n, raw = PStr s\<rparr>)
               (spec_trailing_number (strip s)))) \<and>
   parse_number_from_payload json_loads (PStr ''round result: 42'') =
     Some (Some \<lparr>issue = None, number = 42, raw = PStr ''round result: 42''\<rparr>) \<and>
   parse_number_from_payload json_loads (PStr ''value: 123'') =
     Some (Some \<lparr>issue = None, number = 23, raw = PStr ''value: 123''\<rparr>)"
proof -
  have "parse_number_from_payload json_loads (PStr s) =
        Some (map_option (\<lambda>n. \<lparr>issue = None, number = n, raw = PStr s\<rparr>)
               (spec_trailing_number (strip s)))" if "\<not> looks_json (strip s)"
    using that strip_last [of s]
    by (subst parse_number_from_payload.simps) (simp add: Let_def string_number_spec)
  moreover have "parse_number_from_payload json_loads (PStr ''round result: 42'') =
     Some (Some \<lparr>issue = None, number = 42, raw = PStr ''round result: 42''\<rparr>)"
    by (simp add: parse_number_from_payload.simps strip_def is_space_def looks_json_def
        string_number_def spaces_to_end_def is_digit_def int_of_digits_def digit_value_def)
  moreover have "parse_number_from_payload json_loads (PStr ''value: 123'') =
     Some (Some \<lparr>issue = None, number = 23, raw = PStr ''value: 123''\<rparr>)"
    by (simp add: parse_number_from_payload.simps strip_def is_space_def looks_json_def
        string_number_def spaces_to_end_def is_digit_def int_of_digits_def digit_value_def)
  ultimately show ?thesis by blast
qed

theorem string_trailing_digits_witness:
  "\<not> looks_json (strip ''round result: 42'') \<and>
   spec_trailing_number (strip ''round result: 42'') = Some 42 \<and>
   parse_number_from_payload (\<lambda>s. None) (PStr ''round result: 42'') =
     Some (map_option (\<lambda>n. \<lparr>issue = None, number = n, raw = PStr ''round result: 42''\<rparr>)
            (spec_trailing_number (strip ''round result: 42'')))"
  using string_trailing_digits [of "''round result: 42''" "\<lambda>s. None"]
  by (simp add: strip_def looks_json_def is_space_def spec_trailing_number_def trailing_run_def
      is_digit_def int_of_digits_def digit_value_def)

lemma str_nat_nonempty: "str_nat n \<noteq> []"
  by (subst str_nat.simps) simp

lemma py_str_nonempty: "truthy v \<Longrightarrow> py_str v \<noteq> []"
  by (cases v) (simp_all add: py_str_def str_int_def str_nat_nonempty)

lemma resolve_issue_first_truthy:
  "resolve_issue data =
     (case filter truthy [safe_get data [''issue''], safe_get data [''expect''],
                          safe_get data [''period'']] of
        [] \<Rightarrow> None
      | v # _ \<Rightarrow> Some (py_str v))"
  by (simp add: resolve_issue_def py_or_def py_str_nonempty Let_def)
    (simp add: py_str_def)

lemma resolve_issue_not_empty: "resolve_issue data \<noteq> Some []"
  by (simp add: resolve_issue_def Let_def)

text \<open>
  C9. When the mapping has a valid candidate \<open>n\<close>, the parser returns the number \<open>n\<close>
  with the issue resolved from the fields \<^verbatim>\<open>issue\<close>, \<^verbatim>\<open>expect\<close>, \<^verbatim>\<open>period\<close> in this
  order: the text of the first one whose value is true in Python's sense, and absent
  when there is none. The issue is never the empty string; it is absent when each of
  the three fields is missing or the empty string.
\<close>

theorem issue_resolution:
  "first_candidate (candidates (PDict d)) = Some n \<Longrightarrow>
   parse_number_from_payload json_loads (PDict d) =
     Some (Some \<lparr>issue = resolve_issue (PDict d), number = n, raw = PDict d\<rparr>) \<and>
   resolve_issue (PDict d) =
     (case filter truthy [safe_get (PDict d) [''issue''], safe_get (PDict d) [''expect''],
                          safe_get (PDict d) [''period'']] of
        [] \<Rightarrow> None
      | v # _ \<Rightarrow> Some (py_str v)) \<and>
   resolve_issue (PDict d) \<noteq> Some [] \<and>
   ((\<forall>k \<in> {''issue'', ''expect'', ''period''}. map_of d k = None \<or> map_of d k = Some (PStr [])) \<longrightarrow>
      resolve_issue (PDict d) = None)"
proof -
  assume c: "first_candidate (candidates (PDict d)) = Some n"
  then have "parse_number_from_payload json_loads (PDict d) =
     Some (Some \<lparr>issue = resolve_issue (PDict d), number = n, raw = PDict d\<rparr>)"
    by (subst parse_number_from_payload.simps) simp
  moreover have "(\<forall>k \<in> {''issue'', ''expect'', ''period''}.
        map_of d k = None \<or> map_of d k = Some (PStr [])) \<Longrightarrow> resolve_issue (PDict d) = None"
    by (auto simp add: resolve_issue_first_truthy)
  ultimately show ?thesis
    using resolve_issue_first_truthy [of "PDict d"] resolve_issue_not_empty [of "PDict d"]
    by blast
qed

theorem issue_resolution_witness:
  "first_candidate (candidates (PDict [(''number'', PInt 7), (''issue'', PStr []),
      (''expect'', PStr ''E9''), (''period'', PStr ''P1'')])) = Some 7 \<and>
   parse_number_from_payload (\<lambda>s. None) (PDict [(''number'', PInt 7), (''issue'', PStr []),
      (''expect'', PStr ''E9''), (''period'', PStr ''P1'')]) =
     Some (Some \<lparr>issue = Some ''E9'', number = 7,
                 raw = PDict [(''number'', PInt 7), (''issue'', PStr []),
                   (''expect'', PStr ''E9''), (''period'', PStr ''P1'')]\<rparr>) \<and>
   first_candidate (candidates (PDict [(''result'', PStr ''no 5''), (''issue'', PStr [])])) = Some 5 \<and>
   parse_number_from_payload (\<lambda>s. None) (PDict [(''result'', PStr ''no 5''), (''issue'', PStr [])]) =
     Some (Some \<lparr>issue = None, number = 5,
                 raw = PDict [(''result'', PStr ''no 5''), (''issue'', PStr [])]\<rparr>)"
  using issue_resolution
    [of "[(''number'', PInt 7), (''issue'', PStr []), (''expect'', PStr ''E9''),
          (''period'', PStr ''P1'')]" 7 "\<lambda>s. None"]
    issue_resolution [of "[(''result'', PStr ''no 5''), (''issue'', PStr [])]" 5 "\<lambda>s. None"]
  by (simp add: candidates_def py_str_def strip_def is_space_def is_digit_def at_end_def
      int_of_digits_def digit_value_def)

lemma collection_last_hit:
  "i < length ks \<Longrightarrow> safe_get data [ks ! i] = PList arr \<Longrightarrow> arr \<noteq> [] \<Longrightarrow>
   (\<forall>j<i. \<forall>xs. safe_get data [ks ! j] = PList xs \<longrightarrow> xs = []) \<Longrightarrow>
   collection_last data ks = Some (last arr)"
proof (induction ks arbitrary: i)
  case Nil
  then show ?case by simp
next
  case (Cons k ks)
  show ?case
  proof (cases i)
    case 0
    with Cons.prems show ?thesis by simp
  next
    case (Suc i')
    with Cons.prems have skip: "\<forall>xs. safe_get data [k] = PList xs \<longrightarrow> xs = []"
      by (metis nth_Cons_0 zero_less_Suc)
    have "collection_last data ks = Some (last arr)"
    proof (rule Cons.IH [of i'])
      show "i' < length ks" using Cons.prems(1) Suc by simp
      show "safe_get data [ks ! i'] = PList arr" using Cons.prems(2) Suc by simp
      show "arr \<noteq> []" by (rule Cons.prems(3))
      show "\<forall>j<i'. \<forall>xs. safe_get data [ks ! j] = PList xs \<longrightarrow> xs = []"
      proof (intro allI impI)
        fix j xs assume "j < i'" and "safe_get data [ks ! j] = PList xs"
        then have "Suc j < i" and "safe_get data [(k # ks) ! Suc j] = PList xs"
          using Suc by simp_all
        with Cons.prems(4) show "xs = []" by blast
      qed
    qed
    with skip show ?thesis
      by (cases "safe_get data [k]") (simp_all del: safe_get.simps)
  qed
qed

lemma collection_last_none:
  "(\<forall>j<length ks. \<forall>xs. safe_get data [ks ! j] = PList xs \<longrightarrow> xs = []) \<Longrightarrow>
   collection_last data ks = None"
proof (induction ks)
  case Nil
  then show ?case by simp
next
  case (Cons k ks)
  then have skip: "\<forall>xs. safe_get data [k] = PList xs \<longrightarrow> xs = []"
    by (metis length_Cons nth_Cons_0 zero_less_Suc)
  have "\<forall>j<length ks. \<forall>xs. safe_get data [ks ! j] = PList xs \<longrightarrow> xs = []"
  proof (intro allI impI)
    fix j xs assume "j < length ks" and "safe_get data [ks ! j] = PList xs"
    then have "Suc j < length (k # ks)" and "safe_get data [(k # ks) ! Suc j] = PList xs"
      by simp_all
    with Cons.prems show "xs = []" by blast
  qed
  then have "collection_last data ks = None" by (rule Cons.IH)
  with skip show ?case
    by (cases "safe_get data [k]") (simp_all del: safe_get.simps)
qed

text \<open>
  C10. When the mapping has no valid candidate: if the \<open>i\<close>-th collection key is
  bound to a non-empty list and no earlier collection key is (earlier keys missing,
  bound to something that is not a list, or bound to the empty list), the parser's
  result is its result on the last element of that list, whatever that is, also when
  it is no event; later keys are not read. If no collection key is bound to a non-empty
  list, the result is no event.
\<close>

theorem collection_recursion:
  "first_candidate (candidates (PDict d)) = None \<Longrightarrow>
   (i < length collection_keys \<and> map_of d (collection_keys ! i) = Some (PList arr) \<and> arr \<noteq> [] \<and>
    (\<forall>j<i. \<forall>xs. map_of d (collection_keys ! j) = Some (PList xs) \<longrightarrow> xs = []) \<longrightarrow>
      parse_number_from_payload json_loads (PDict d) =
        parse_number_from_payload json_loads (last arr)) \<and>
   ((\<forall>j<length collection_keys. \<forall>xs. map_of d (collection_keys ! j) = Some (PList xs) \<longrightarrow> xs = []) \<longrightarrow>
      parse_number_from_payload json_loads (PDict d) = Some None)"
proof -
  assume c: "first_candidate (candidates (PDict d)) = None"
  have get: "\<And>k xs. (safe_get (PDict d) [k] = PList xs) = (map_of d k = Some (PList xs))"
    by (auto split: option.splits)
  have hit: "parse_number_from_payload json_loads (PDict d) =
        parse_number_from_payload json_loads (last arr)"
    if "i < length collection_keys" "map_of d (collection_keys ! i) = Some (PList arr)" "arr \<noteq> []"
      "\<forall>j<i. \<forall>xs. map_of d (collection_keys ! j) = Some (PList xs) \<longrightarrow> xs = []"
  proof -
    have "collection_last (PDict d) collection_keys = Some (last arr)"
    proof (rule collection_last_hit [of i])
      show "i < length collection_keys" by (rule that(1))
      show "safe_get (PDict d) [collection_keys ! i] = PList arr"
        using that(2) by (simp only: get)
      show "arr \<noteq> []" by (rule that(3))
      show "\<forall>j<i. \<forall>xs. safe_get (PDict d) [collection_keys ! j] = PList xs \<longrightarrow> xs = []"
        using that(4) by (simp only: get)
    qed
    with c show ?thesis
      by (subst parse_number_from_payload.simps) simp
  qed
  have none: "parse_number_from_payload json_loads (PDict d) = Some None"
    if "\<forall>j<length collection_keys. \<forall>xs. map_of d (collection_keys ! j) = Some (PList xs) \<longrightarrow> xs = []"
  proof -
    have "collection_last (PDict d) collection_keys = None"
      using that by (intro collection_last_none) (simp only: get)
    with c show ?thesis
      by (subst parse_number_from_payload.simps) simp
  qed
  from hit none show ?thesis by blast
qed

theorem collection_recursion_witness:
  "first_candidate (candidates (PDict [(''list'', PList [PDict [(''x'', PInt 1)]]),
      (''rows'', PList [PDict [(''number'', PInt 5)]])])) = None \<and>
   map_of [(''list'', PList [PDict [(''x'', PInt 1)]]),
           (''rows'', PList [PDict [(''number'', PInt 5)]])] (collection_keys ! 0) =
     Some (PList [PDict [(''x'', PInt 1)]]) \<and>
   parse_number_from_payload (\<lambda>s. None) (PDict [(''list'', PList [PDict [(''x'', PInt 1)]]),
      (''rows'', PList [PDict [(''number'', PInt 5)]])]) = Some None \<and>
   first_candidate (candidates (PDict [(''list'', PList []), (''rows'', PStr ''abc''),
      (''data'', PList [PDict [(''number'', PInt 3)], PDict [(''number'', PInt 8)]])])) = None \<and>
   map_of [(''list'', PList []), (''rows'', PStr ''abc''),
           (''data'', PList [PDict [(''number'', PInt 3)], PDict [(''number'', PInt 8)]])]
     (collection_keys ! 2) =
     Some (PList [PDict [(''number'', PInt 3)], PDict [(''number'', PInt 8)]]) \<and>
   parse_number_from_payload (\<lambda>s. None) (PDict [(''list'', PList []), (''rows'', PStr ''abc''),
      (''data'', PList [PDict [(''number'', PInt 3)], PDict [(''number'', PInt 8)]])]) =
     Some (Some \<lparr>issue = None, number = 8, raw = PDict [(''number'', PInt 8)]\<rparr>) \<and>
   first_candidate (candidates (PDict [(''list'', PList []), (''rows'', PStr ''abc'')])) = None \<and>
   parse_number_from_payload (\<lambda>s. None) (PDict [(''list'', PList []), (''rows'', PStr ''abc'')]) =
     Some None"
proof -
  let ?jl = "\<lambda>s :: string. None :: pyval option"
  let ?d3 = "[(''list'', PList []), (''rows'', PStr ''abc'')]"
  have c3: "first_candidate (candidates (PDict ?d3)) = None"
    by (simp add: candidates_def)
  have h3: "\<forall>j<length collection_keys. \<forall>xs.
      map_of ?d3 (collection_keys ! j) = Some (PList xs) \<longrightarrow> xs = []"
    by (simp add: collection_keys_def All_less_Suc)
  have p3: "parse_number_from_payload ?jl (PDict ?d3) = Some None"
    using collection_recursion [OF c3, of 0 "[]" ?jl] h3 by blast
  let ?a1 = "[PDict [(''x'', PInt 1)]]"
  let ?d1 = "[(''list'', PList ?a1), (''rows'', PList [PDict [(''number'', PInt 5)]])]"
  let ?a2 = "[PDict [(''number'', PInt 3)], PDict [(''number'', PInt 8)]]"
  let ?d2 = "[(''list'', PList []), (''rows'', PStr ''abc''), (''data'', PList ?a2)]"
  have c1: "first_candidate (candidates (PDict ?d1)) = None"
    by (simp add: candidates_def)
  have k1: "map_of ?d1 (collection_keys ! 0) = Some (PList ?a1)"
    by (simp add: collection_keys_def)
  have h1: "0 < length collection_keys \<and> map_of ?d1 (collection_keys ! 0) = Some (PList ?a1) \<and>
      ?a1 \<noteq> [] \<and> (\<forall>j<0. \<forall>xs. map_of ?d1 (collection_keys ! j) = Some (PList xs) \<longrightarrow> xs = [])"
    using k1 by (simp add: collection_keys_def)
  have r1: "parse_number_from_payload ?jl (last ?a1) = Some None"
    by (simp add: parse_number_from_payload.simps candidates_def collection_keys_def)
  have "parse_number_from_payload ?jl (PDict ?d1) = parse_number_from_payload ?jl (last ?a1)"
    using collection_recursion [OF c1, of 0 ?a1 ?jl] h1 by blast
  with r1 have p1: "parse_number_from_payload ?jl (PDict ?d1) = Some None"
    by (simp only:)
  have c2: "first_candidate (candidates (PDict ?d2)) = None"
    by (simp add: candidates_def)
  have k2: "map_of ?d2 (collection_keys ! 2) = Some (PList ?a2)"
    by (simp add: collection_keys_def)
  have e2: "\<forall>j<2. \<forall>xs. map_of ?d2 (collection_keys ! j) = Some (PList xs) \<longrightarrow> xs = []"
    by (auto simp add: less_2_cases_iff collection_keys_def)
  have h2: "2 < length collection_keys \<and> map_of ?d2 (collection_keys ! 2) = Some (PList ?a2) \<and>
      ?a2 \<noteq> [] \<and> (\<forall>j<2. \<forall>xs. map_of ?d2 (collection_keys ! j) = Some (PList xs) \<longrightarrow> xs = [])"
    using k2 e2 by (simp add: collection_keys_def)
  have r2: "parse_number_from_payload ?jl (last ?a2) =
      Some (Some \<lparr>issue = None, number = 8, raw = PDict [(''number'', PInt 8)]\<rparr>)"
    by (simp add: parse_number_from_payload.simps candidates_def resolve_issue_def py_or_def
        py_str_def)
  have "parse_number_from_payload ?jl (PDict ?d2) = parse_number_from_payload ?jl (last ?a2)"
    using collection_recursion [OF c2, of 2 ?a2 ?jl] h2 by blast
  with r2 have p2: "parse_number_from_payload ?jl (PDict ?d2) =
      Some (Some \<lparr>issue = None, number = 8, raw = PDict [(''number'', PInt 8)]\<rparr>)"
    by (simp only:)
  from c1 k1 p1 c2 k2 p2 c3 p3 show ?thesis by (simp only: simp_thms)
qed

end
